theory Spec2Isabelle
  imports Complex_Main
begin

section \<open>Python values, errors and the file system\<close>

text \<open>
  The functions of \<^verbatim>\<open>utils.py\<close> are embedded as HOL functions.  A Python \<^verbatim>\<open>str\<close> is a
  \<^typ>\<open>string\<close> (the model covers ASCII text: case mapping and white space are the ASCII
  ones), the bytes of a file are a \<^typ>\<open>string\<close> as well.  Every \<^verbatim>\<open>assert\<close>, every
  exception of a system call and \<^verbatim>\<open>sys.exit\<close> is a value \<open>Inl e\<close> of the result.
  The parameters annotated \<^verbatim>\<open>str\<close> in the source are strings here, so the
  \<^verbatim>\<open>isinstance\<close> assertions on them always pass and are not repeated.  The calls of
  \<^verbatim>\<open>print\<close> in the file functions influence neither result nor control flow and are
  left out; the confirmation prompt, whose only purpose is the dialogue, keeps them.
\<close>

datatype exit_arg = ExitNone | ExitInt int | ExitStr string

datatype error =
    AssertionError string
  | FileNotFoundError string
  | NotADirectoryError string
  | IsADirectoryError string
  | AttributeError string
  | ZeroDivisionError
  | EOFError
  | SystemExit exit_arg
  | Cv2Error string
  | ValueError string

text \<open>
  The file system as the calls of \<^verbatim>\<open>os\<close> see it: a path names a file with its bytes, a
  directory with the names \<^verbatim>\<open>os.listdir\<close> returns (in that order), or nothing.  A name
  that a directory lists need not exist as a path (a dangling link).
\<close>

datatype node = File string | Dir "string list"

type_synonym filesystem = "string \<Rightarrow> node option"

definition os_path_exists :: "filesystem \<Rightarrow> string \<Rightarrow> bool" where
  "os_path_exists fs p = (fs p \<noteq> None)"

definition os_listdir :: "filesystem \<Rightarrow> string \<Rightarrow> error + string list" where
  "os_listdir fs p =
     (case fs p of
        None \<Rightarrow> Inl (FileNotFoundError p)
      | Some (File _) \<Rightarrow> Inl (NotADirectoryError p)
      | Some (Dir names) \<Rightarrow> Inr names)"

text \<open>\<^verbatim>\<open>posixpath.join\<close> of two components.\<close>

definition os_path_join :: "string \<Rightarrow> string \<Rightarrow> string" where
  "os_path_join a b =
     (if b \<noteq> [] \<and> hd b = CHR ''/'' then b
      else if a = [] \<or> last a = CHR ''/'' then a @ b
      else a @ ''/'' @ b)"

text \<open>\<^verbatim>\<open>open(path, 'rb').read()\<close>.\<close>

definition read_bytes :: "filesystem \<Rightarrow> string \<Rightarrow> error + string" where
  "read_bytes fs p =
     (case fs p of
        None \<Rightarrow> Inl (FileNotFoundError p)
      | Some (Dir _) \<Rightarrow> Inl (IsADirectoryError p)
      | Some (File bs) \<Rightarrow> Inr bs)"

section \<open>String operations of Python used by the source\<close>

text \<open>
  \<^verbatim>\<open>str.split(sep)\<close> for a one-character separator and \<^verbatim>\<open>re.split\<close> for a pattern
  that matches single characters are the same scan: \<open>cur\<close> is the piece read so far.
\<close>

fun split_at :: "(char \<Rightarrow> bool) \<Rightarrow> string \<Rightarrow> string \<Rightarrow> string list" where
  "split_at d cur [] = [cur]"
| "split_at d cur (c # cs) =
     (if d c then cur # split_at d [] cs else split_at d (cur @ [c]) cs)"

definition str_split :: "string \<Rightarrow> char \<Rightarrow> string list" where
  "str_split s sep = split_at (\<lambda>c. c = sep) [] s"

text \<open>
  White space as \<^verbatim>\<open>str.split()\<close>, \<^verbatim>\<open>str.isspace\<close> and the pattern \<^verbatim>\<open>\s\<close> know it in
  ASCII: tab, line feed, vertical tab, form feed, carriage return, the four separators
  \<^verbatim>\<open>0x1c\<close> to \<^verbatim>\<open>0x1f\<close>, and the space.
\<close>

definition is_space :: "char \<Rightarrow> bool" where
  "is_space c =
     (c \<in> set [CHR 0x09, CHR 0x0A, CHR 0x0B, CHR 0x0C, CHR 0x0D,
                CHR 0x1C, CHR 0x1D, CHR 0x1E, CHR 0x1F, CHR '' ''])"

text \<open>\<^verbatim>\<open>str.split()\<close> without a separator: the non-empty pieces between white space.\<close>

definition split_whitespace :: "string \<Rightarrow> string list" where
  "split_whitespace s = filter (\<lambda>w. w \<noteq> []) (split_at is_space [] s)"

text \<open>\<^verbatim>\<open>sep.join(pieces)\<close>.\<close>

fun join :: "string \<Rightarrow> string list \<Rightarrow> string" where
  "join sep [] = []"
| "join sep [x] = x"
| "join sep (x # y # ys) = x @ sep @ join sep (y # ys)"

text \<open>\<^verbatim>\<open>str.lower\<close> on ASCII: the letters \<open>A\<close> to \<open>Z\<close> move up by 32.\<close>

definition lower_char :: "char \<Rightarrow> char" where
  "lower_char c =
     (let n = (of_char c :: nat) in if 65 \<le> n \<and> n \<le> 90 then char_of (n + 32) else c)"

definition str_lower :: "string \<Rightarrow> string" where
  "str_lower s = map lower_char s"

text \<open>\<^verbatim>\<open>s.endswith(e)\<close>.\<close>

definition endswith :: "string \<Rightarrow> string \<Rightarrow> bool" where
  "endswith s e = (length e \<le> length s \<and> drop (length s - length e) s = e)"

text \<open>
  Reading a file opened in text mode translates \<^verbatim>\<open>\r\n\<close> and a lone \<^verbatim>\<open>\r\<close> to
  \<^verbatim>\<open>\n\<close> (universal newlines).
\<close>

fun universal_newlines :: "string \<Rightarrow> string" where
  "universal_newlines [] = []"
| "universal_newlines (c # cs) =
     (if c = CHR 0x0D
      then (case cs of
              [] \<Rightarrow> [CHR 0x0A]
            | d # ds \<Rightarrow>
                if d = CHR 0x0A then CHR 0x0A # universal_newlines ds
                else CHR 0x0A # universal_newlines cs)
      else c # universal_newlines cs)"

definition read_text :: "filesystem \<Rightarrow> string \<Rightarrow> error + string" where
  "read_text fs p =
     (case read_bytes fs p of Inl e \<Rightarrow> Inl e | Inr bs \<Rightarrow> Inr (universal_newlines bs))"

text \<open>
  \<^verbatim>\<open>str.splitlines()\<close>: a line ends at \<^verbatim>\<open>\n\<close>, \<^verbatim>\<open>\r\<close>, \<^verbatim>\<open>\r\n\<close>, vertical tab, form
  feed or one of the separators \<^verbatim>\<open>0x1c\<close> to \<^verbatim>\<open>0x1e\<close>; the line ends are dropped and
  there is no empty last line.
\<close>

definition is_linebreak :: "char \<Rightarrow> bool" where
  "is_linebreak c =
     (c \<in> set [CHR 0x0A, CHR 0x0B, CHR 0x0C, CHR 0x0D, CHR 0x1C, CHR 0x1D, CHR 0x1E])"

fun splitlines_from :: "string \<Rightarrow> string \<Rightarrow> string list" where
  "splitlines_from cur [] = (if cur = [] then [] else [cur])"
| "splitlines_from cur (c # cs) =
     (if is_linebreak c
      then (case cs of
              [] \<Rightarrow> [cur]
            | d # ds \<Rightarrow>
                if c = CHR 0x0D \<and> d = CHR 0x0A then cur # splitlines_from [] ds
                else cur # splitlines_from [] cs)
      else splitlines_from (cur @ [c]) cs)"

definition splitlines :: "string \<Rightarrow> string list" where
  "splitlines s = splitlines_from [] s"

text \<open>
  \<^verbatim>\<open>bytes.splitlines()\<close>: as above, but a line of bytes ends at \<^verbatim>\<open>\n\<close>, \<^verbatim>\<open>\r\<close> or
  \<^verbatim>\<open>\r\n\<close> only.
\<close>

fun bytes_splitlines_from :: "string \<Rightarrow> string \<Rightarrow> string list" where
  "bytes_splitlines_from cur [] = (if cur = [] then [] else [cur])"
| "bytes_splitlines_from cur (c # cs) =
     (if c = CHR 0x0A \<or> c = CHR 0x0D
      then (case cs of
              [] \<Rightarrow> [cur]
            | d # ds \<Rightarrow>
                if c = CHR 0x0D \<and> d = CHR 0x0A then cur # bytes_splitlines_from [] ds
                else cur # bytes_splitlines_from [] cs)
      else bytes_splitlines_from (cur @ [c]) cs)"

definition bytes_splitlines :: "string \<Rightarrow> string list" where
  "bytes_splitlines s = bytes_splitlines_from [] s"

section \<open>Type Normalizer and File Finder\<close>

text \<open>An argument annotated \<^verbatim>\<open>str or list\<close>.\<close>

datatype str_or_list = Str string | Lst "string list"

fun str2list :: "str_or_list \<Rightarrow> string list" where
  "str2list (Str s) = [s]"
| "str2list (Lst l) = l"

text \<open>
  \<^verbatim>\<open>file.split('.')[-1]\<close>; the index \<open>-1\<close> cannot raise, since \<^verbatim>\<open>split\<close> returns at
  least one piece (lemma \<open>split_at_not_Nil\<close>).
\<close>

definition last_dot_segment :: "string \<Rightarrow> string" where
  "last_dot_segment file = last (str_split file CHR ''.'')"

text \<open>
  The pandas steps are taken by their meaning on a list of strings:
  \<^verbatim>\<open>files.str.split('.', regex=False).apply(lambda x: x[-1], 1)\<close> is \<open>last_dot_segment\<close>
  on every name, and \<^verbatim>\<open>files[idx_suffix]\<close> is the selection by a boolean mask, written
  with \<open>zip\<close>.  The listing holds the names of all entries of the folder, those of its
  subfolders included; nothing descends into them.
\<close>

definition find_files_with_suffix ::
    "filesystem \<Rightarrow> string \<Rightarrow> str_or_list \<Rightarrow> error + string list" where
  "find_files_with_suffix fs folder suffix =
     (if \<not> os_path_exists fs folder
      then Inl (AssertionError (''Folder '' @ folder @ '' does not exist''))
      else
        let suffix' = str2list suffix in
        case os_listdir fs folder of
          Inl e \<Rightarrow> Inl e
        | Inr files \<Rightarrow>
            let file_suffixes = map last_dot_segment files;
                idx_suffix = map (\<lambda>file_suffix. file_suffix \<in> set suffix') file_suffixes
            in Inr (map fst (filter snd (zip files idx_suffix))))"

section \<open>Image classification helper and image-to-bytes helper\<close>

definition image_extensions :: "string list" where
  "image_extensions = [''.png'', ''.jpg'', ''.jpeg'', ''.tiff'', ''.bmp'', ''.gif'']"

definition is_file_image :: "filesystem \<Rightarrow> string \<Rightarrow> error + bool" where
  "is_file_image fs path =
     (if \<not> os_path_exists fs path
      then Inl (AssertionError (path @ '' does not exist''))
      else Inr (list_ex (endswith (str_lower path)) image_extensions))"

text \<open>
  The image library \<^verbatim>\<open>cv2\<close> is not part of the repository: its four operations are
  parameters.  \<open>imread\<close> decodes the bytes of a file (\<open>None\<close> when they are no
  image), \<open>shape\<close> gives height and width, \<open>resize\<close> takes the factors \<^verbatim>\<open>fx\<close> and
  \<^verbatim>\<open>fy\<close>, \<open>imencode\<close> takes the extension with its dot.
\<close>

record 'img cv2 =
  imread :: "string \<Rightarrow> 'img option"
  shape :: "'img \<Rightarrow> nat \<times> nat"
  resize :: "'img \<Rightarrow> real \<Rightarrow> real \<Rightarrow> error + 'img"
  imencode :: "string \<Rightarrow> 'img \<Rightarrow> error + string"

text \<open>\<^verbatim>\<open>cv2.imread(path, ...)\<close> returns \<^verbatim>\<open>None\<close> for a path it cannot read.\<close>

definition cv2_imread :: "'img cv2 \<Rightarrow> filesystem \<Rightarrow> string \<Rightarrow> 'img option" where
  "cv2_imread cv fs path =
     (case fs path of Some (File bs) \<Rightarrow> imread cv bs | _ \<Rightarrow> None)"

text \<open>
  \<^verbatim>\<open>np.argmax\<close> picks the first of two equal dimensions.  \<^verbatim>\<open>img.shape\<close> of
  \<^verbatim>\<open>None\<close> raises \<^verbatim>\<open>AttributeError\<close>.  The last assertion of the source
  (\<^verbatim>\<open>tobytes\<close> returns \<^verbatim>\<open>bytes\<close>) always passes.
\<close>

definition image2bytes :: "'img cv2 \<Rightarrow> filesystem \<Rightarrow> string \<Rightarrow> int \<Rightarrow> error + string" where
  "image2bytes cv fs path max_size =
     (if \<not> os_path_exists fs path
      then Inl (AssertionError (path @ '' does not exist''))
      else
        case is_file_image fs path of
          Inl e \<Rightarrow> Inl e
        | Inr is_image \<Rightarrow>
            if \<not> is_image then Inl (AssertionError (path @ '' is not an image''))
            else
              (case cv2_imread cv fs path of
                 None \<Rightarrow> Inl (AttributeError ''shape'')
               | Some img \<Rightarrow>
                   let dim_max = (if fst (shape cv img) < snd (shape cv img) then 1 else 0 :: nat);
                       pixels_max = (if dim_max = 0 then fst (shape cv img)
                                     else snd (shape cv img));
                       resized =
                         (if int pixels_max > max_size
                          then (if pixels_max = 0 then Inl ZeroDivisionError
                                else let scale = real_of_int max_size / real pixels_max
                                     in resize cv img scale scale)
                          else Inr img)
                   in (case resized of
                         Inl e \<Rightarrow> Inl e
                       | Inr img' \<Rightarrow> imencode cv (''.'' @ last_dot_segment path) img')))"

section \<open>Attachment Composer\<close>

text \<open>
  The message object of the library \<^verbatim>\<open>email\<close> is modelled by what it holds after the
  calls of the source: the body, the headers in the order they are set, and for every
  \<^verbatim>\<open>add_attachment\<close> the bytes with the declared main type and subtype.
\<close>

record attachment =
  data :: string
  maintype :: string
  subtype :: string

record email_message =
  content :: string
  headers :: "(string \<times> string) list"
  attachments :: "attachment list"

definition EmailMessage :: email_message where
  "EmailMessage = \<lparr>content = [], headers = [], attachments = []\<rparr>"

text \<open>
  \<^verbatim>\<open>set_content\<close> of a text keeps it as the library's \<^verbatim>\<open>_encode_text\<close> writes it,
  \<^verbatim>\<open>b'\n'.join(lines) + b'\n'\<close> for \<^verbatim>\<open>lines = string.encode(charset).splitlines()\<close>:
  this is the body that \<^verbatim>\<open>get_content\<close> gives back.
\<close>

definition set_content :: "email_message \<Rightarrow> string \<Rightarrow> email_message" where
  "set_content msg text =
     msg\<lparr>content := join [CHR 0x0A] (bytes_splitlines text) @ [CHR 0x0A]\<rparr>"

text \<open>
  \<^verbatim>\<open>msg[name] = v\<close> first refuses a value of more than one line
  (\<^verbatim>\<open>len(value.splitlines()) > 1\<close> in \<^verbatim>\<open>header_store_parse\<close>) and then hands it to the
  library's parser for a header of this name, which raises on its own for some values
  (an address header with a line end left in an address, or one it cannot read).  This
  parser is not part of the repository: it is the parameter \<open>hf\<close>, which gives the
  exception raised for the value, if any.  The record keeps the value as it was given.
\<close>

type_synonym header_factory = "string \<Rightarrow> string \<Rightarrow> error option"

definition set_header ::
    "header_factory \<Rightarrow> email_message \<Rightarrow> string \<Rightarrow> string \<Rightarrow> error + email_message" where
  "set_header hf msg name v =
     (if 1 < length (splitlines v)
      then Inl (ValueError
                  ''Header values may not contain linefeed or carriage return characters'')
      else
        case hf name v of
          Some e \<Rightarrow> Inl e
        | None \<Rightarrow> Inr (msg\<lparr>headers := headers msg @ [(name, v)]\<rparr>))"

definition add_attachment ::
    "email_message \<Rightarrow> string \<Rightarrow> string \<Rightarrow> string \<Rightarrow> email_message" where
  "add_attachment msg bs mt st =
     msg\<lparr>attachments := attachments msg @ [\<lparr>data = bs, maintype = mt, subtype = st\<rparr>]\<rparr>"

text \<open>The body of the loop \<^verbatim>\<open>for file in files\<close>: the attachment made from one file.\<close>

definition file_attachment ::
    "'img cv2 \<Rightarrow> filesystem \<Rightarrow> string \<Rightarrow> int \<Rightarrow> string \<Rightarrow> error + attachment" where
  "file_attachment cv fs folder_attachents max_image_size file =
     (let subtype' = last_dot_segment file;
          path = os_path_join folder_attachents file
      in case is_file_image fs path of
           Inl e \<Rightarrow> Inl e
         | Inr is_image \<Rightarrow>
             (case (if is_image then image2bytes cv fs path max_image_size
                    else read_bytes fs path) of
                Inl e \<Rightarrow> Inl e
              | Inr bs \<Rightarrow> Inr \<lparr>data = bs, maintype = ''image'', subtype = subtype'\<rparr>))"

fun add_attachments ::
    "'img cv2 \<Rightarrow> filesystem \<Rightarrow> string \<Rightarrow> int \<Rightarrow> string list \<Rightarrow> email_message
       \<Rightarrow> error + email_message" where
  "add_attachments cv fs folder_attachents max_image_size [] msg = Inr msg"
| "add_attachments cv fs folder_attachents max_image_size (file # files) msg =
     (case file_attachment cv fs folder_attachents max_image_size file of
        Inl e \<Rightarrow> Inl e
      | Inr a \<Rightarrow>
          add_attachments cv fs folder_attachents max_image_size files
            (add_attachment msg (data a) (maintype a) (subtype a)))"

definition create_message ::
    "header_factory \<Rightarrow> 'img cv2 \<Rightarrow> filesystem \<Rightarrow> string \<Rightarrow> string \<Rightarrow> string \<Rightarrow> string
       \<Rightarrow> string \<Rightarrow> str_or_list \<Rightarrow> int \<Rightarrow> error + email_message" where
  "create_message hf cv fs message email_from email_to subject folder_attachents
       attachment_suffix max_image_size =
     (if \<not> os_path_exists fs folder_attachents
      then Inl (AssertionError (''Folder '' @ folder_attachents @ '' does not exist''))
      else
        let attachment_suffix' = Lst (str2list attachment_suffix);
            msg0 = set_content EmailMessage message
        in case set_header hf msg0 ''To'' email_to of
             Inl e \<Rightarrow> Inl e
           | Inr msg1 \<Rightarrow>
               (case set_header hf msg1 ''From'' email_from of
                  Inl e \<Rightarrow> Inl e
                | Inr msg2 \<Rightarrow>
                    (case set_header hf msg2 ''Subject'' subject of
                       Inl e \<Rightarrow> Inl e
                     | Inr msg3 \<Rightarrow>
                         (case find_files_with_suffix fs folder_attachents
                                 attachment_suffix' of
                            Inl e \<Rightarrow> Inl e
                          | Inr files \<Rightarrow>
                              add_attachments cv fs folder_attachents max_image_size
                                files msg3))))"

section \<open>Address Extractor\<close>

text \<open>The loop that reads the lines of every file found, in order.\<close>

fun read_all_lines ::
    "filesystem \<Rightarrow> string \<Rightarrow> string list \<Rightarrow> string list \<Rightarrow> error + string list" where
  "read_all_lines fs folder [] emails = Inr emails"
| "read_all_lines fs folder (file # files) emails =
     (case read_text fs (os_path_join folder file) of
        Inl e \<Rightarrow> Inl e
      | Inr txt \<Rightarrow> read_all_lines fs folder files (emails @ splitlines txt))"

text \<open>
  The pandas steps on the one-row series are the string operations themselves:
  \<^verbatim>\<open>str.split\<close> with the pattern \<^verbatim>\<open>\s|\;|\n\<close> and \<^verbatim>\<open>explode\<close> give the pieces between
  single white-space characters and semicolons, \<^verbatim>\<open>str.contains\<close> keeps the pieces with
  an \<open>@\<close>, \<^verbatim>\<open>str.replace\<close> deletes every \<open><\<close> and \<open>>\<close>.
\<close>

definition process_email_list ::
    "filesystem \<Rightarrow> string \<Rightarrow> str_or_list \<Rightarrow> error + string list" where
  "process_email_list fs folder file_suffix =
     (if \<not> os_path_exists fs folder
      then Inl (AssertionError (''Folder '' @ folder @ '' does not exist''))
      else
        case find_files_with_suffix fs folder file_suffix of
          Inl e \<Rightarrow> Inl e
        | Inr files \<Rightarrow>
            (case read_all_lines fs folder files [] of
               Inl e \<Rightarrow> Inl e
             | Inr emails \<Rightarrow>
                 let emails1 = map (\<lambda>email. str2list (Str email)) emails;
                     emails2 = join '' '' (map (join '' '') emails1);
                     emails3 = str_lower emails2;
                     emails4 = join '' '' (split_whitespace emails3);
                     emails5 = split_at (\<lambda>c. is_space c \<or> c = CHR '';'' \<or> c = CHR 0x0A) []
                                 emails4;
                     emails6 = filter (\<lambda>e. CHR ''@'' \<in> set e) emails5;
                     emails7 = map (filter (\<lambda>c. c \<noteq> CHR ''<'' \<and> c \<noteq> CHR ''>'')) emails6
                 in Inr emails7))"

section \<open>Confirmation prompt\<close>

text \<open>
  Standard input is the list of the lines still to come, standard output the list of the
  lines printed so far.  \<^verbatim>\<open>input()\<close> on an exhausted input raises \<^verbatim>\<open>EOFError\<close>: the
  prompt wanted another line.
\<close>

record io =
  stdin :: "string list"
  stdout :: "string list"

definition print_line :: "string \<Rightarrow> io \<Rightarrow> io" where
  "print_line s w = w\<lparr>stdout := stdout w @ [s]\<rparr>"

text \<open>
  The \<^verbatim>\<open>while\<close> loop, entered with the line \<open>inp\<close> read last; it returns the line that
  ended it.
\<close>

function yn_loop :: "string \<Rightarrow> io \<Rightarrow> (error + string) \<times> io" where
  "yn_loop inp w =
     (if inp \<noteq> ''Y'' \<and> inp \<noteq> ''n''
      then
        let w1 = print_line ''You did not press Y or n, try again'' w in
        (case stdin w1 of
           [] \<Rightarrow> (Inl EOFError, w1)
         | l # rest \<Rightarrow> yn_loop l (print_line (''You pressed '' @ l) (w1\<lparr>stdin := rest\<rparr>)))
      else (Inr inp, w))"
  by pat_completeness auto
termination
  by (relation "measure (\<lambda>(inp, w). length (stdin w))") (auto simp: print_line_def)

definition press_Yn_to_continue :: "io \<Rightarrow> (error + unit) \<times> io" where
  "press_Yn_to_continue w =
     (let w1 = print_line ''Press Y to continue, or n to break'' w in
      case stdin w1 of
        [] \<Rightarrow> (Inl EOFError, w1)
      | l # rest \<Rightarrow>
          (case yn_loop l (print_line (''You pressed '' @ l) (w1\<lparr>stdin := rest\<rparr>)) of
             (Inl e, w2) \<Rightarrow> (Inl e, w2)
           | (Inr inp, w2) \<Rightarrow>
               if inp = ''n'' then (Inl (SystemExit (ExitStr ''You pressed n, breaking'')), w2)
               else (Inr (), w2)))"

text \<open>
  The exit status of the process for an uncaught \<^verbatim>\<open>SystemExit\<close>: 0 for \<^verbatim>\<open>None\<close>, the
  integer itself, and 1 for any other object (which is printed).
\<close>

fun exit_status :: "exit_arg \<Rightarrow> int" where
  "exit_status ExitNone = 0"
| "exit_status (ExitInt n) = n"
| "exit_status (ExitStr s) = 1"

section \<open>A concrete image library for the examples\<close>

text \<open>
  An instance of the \<^verbatim>\<open>cv2\<close> parameters on which the functions can be run: an image is
  its shape, the bytes of an image file have one byte per row and every image is two
  pixels wide.
\<close>

definition toy_cv2 :: "(nat \<times> nat) cv2" where
  "toy_cv2 =
     \<lparr>imread = (\<lambda>bs. if bs = [] then None else Some (length bs, 2)),
      shape = (\<lambda>img. img),
      resize = (\<lambda>img fx fy. Inr (1, 1)),
      imencode = (\<lambda>ext img. Inr (ext @ replicate (fst img) CHR ''#''))\<rparr>"

text \<open>A header parser that accepts every value.\<close>

definition plain_headers :: header_factory where
  "plain_headers = (\<lambda>name v. None)"




text \<open>
  A folder \<^verbatim>\<open>pics\<close> with an image, a text file, an upper-case name without a file
  behind it, and a file whose whole name is an image suffix.
\<close>

definition example_fs :: filesystem where
  "example_fs =
     (\<lambda>p. if p = ''pics'' then Some (Dir [''a.png'', ''notes.txt'', ''b.JPG'', ''jpg''])
          else if p = ''pics/a.png'' then Some (File ''xyz'')
          else if p = ''pics/notes.txt'' then Some (File ''hello'')
          else if p = ''pics/jpg'' then Some (File ''raw'')
          else None)"

section \<open>The specification's vocabulary\<close>

text \<open>
  The extension of a file name in the words of the specification: what follows the last
  dot, the whole name when it has no dot.
\<close>

definition after_last_dot :: "string \<Rightarrow> string" where
  "after_last_dot name = rev (takeWhile (\<lambda>c. c \<noteq> CHR ''.'') (rev name))"

text \<open>
  A text with its line ends written as \<^verbatim>\<open>\n\<close> and closed by one: \<open>u\<close> is the text
  after the translation of \<^verbatim>\<open>\r\n\<close> and \<^verbatim>\<open>\r\<close>.
\<close>

definition line_feed_terminated :: "string \<Rightarrow> string" where
  "line_feed_terminated u = (if u \<noteq> [] \<and> last u = CHR 0x0A then u else u @ [CHR 0x0A])"



section \<open>Lemmas on the string operations\<close>

lemma split_at_not_Nil: "split_at d cur s \<noteq> []"
  by (induction s arbitrary: cur) auto

lemma last_split_at:
  "last (split_at d cur s) =
     (if list_ex d s then rev (takeWhile (\<lambda>c. \<not> d c) (rev s)) else cur @ s)"
proof (induction s arbitrary: cur)
  case Nil
  then show ?case by simp
next
  case (Cons c cs)
  show ?case
  proof (cases "d c")
    case True
    then show ?thesis
      using Cons.IH [of "[]"] split_at_not_Nil [of d "[]" cs]
      by (auto simp: takeWhile_append list_ex_iff)
  next
    case False
    then show ?thesis
      using Cons.IH [of "cur @ [c]"]
      by (auto simp: takeWhile_append list_ex_iff)
  qed
qed

lemma after_last_dot_no_dot:
  assumes "CHR ''.'' \<notin> set name"
  shows "after_last_dot name = name"
proof -
  from assms have "\<forall>c \<in> set (rev name). c \<noteq> CHR ''.''" by auto
  then have "takeWhile (\<lambda>c. c \<noteq> CHR ''.'') (rev name) = rev name"
    by (simp only: takeWhile_eq_all_conv)
  then show ?thesis
    unfolding after_last_dot_def by (simp only: rev_rev_ident)
qed

lemma last_dot_segment_eq: "last_dot_segment name = after_last_dot name"
proof (cases "CHR ''.'' \<in> set name")
  case True
  then show ?thesis
    by (simp add: last_dot_segment_def str_split_def after_last_dot_def last_split_at
        list_ex_iff)
next
  case False
  then show ?thesis
    by (simp add: last_dot_segment_def str_split_def last_split_at list_ex_iff
        after_last_dot_no_dot)
qed

lemma mask_select:
  "map fst (filter snd (zip xs (map P xs))) = filter P xs"
  by (induction xs) auto

lemma find_files_with_suffix_Dir:
  assumes "fs folder = Some (Dir names)"
  shows "find_files_with_suffix fs folder suffix =
           Inr (filter (\<lambda>f. last_dot_segment f \<in> set (str2list suffix)) names)"
  using assms
    mask_select [where P = "\<lambda>f. last_dot_segment f \<in> set (str2list suffix)" and xs = names]
  by (simp add: find_files_with_suffix_def os_path_exists_def os_listdir_def comp_def)

lemma find_files_with_suffix_str2list:
  "find_files_with_suffix fs folder (Lst (str2list suffix)) = find_files_with_suffix fs folder suffix"
  by (simp add: find_files_with_suffix_def)

section \<open>Lemmas on the body of a message\<close>

lemma bytes_splitlines_from_Nil_iff:
  "bytes_splitlines_from cur s = [] \<longleftrightarrow> cur = [] \<and> s = []"
  by (induction cur s rule: bytes_splitlines_from.induct) (auto split: list.splits)

lemma join_Cons: "join sep (x # xs) = (if xs = [] then x else x @ sep @ join sep xs)"
  by (cases xs) simp_all

lemma universal_newlines_Nil_iff: "universal_newlines s = [] \<longleftrightarrow> s = []"
  by (cases s) (auto split: list.splits)

lemma line_feed_terminated_append:
  assumes "u \<noteq> []"
  shows "line_feed_terminated (a @ u) = a @ line_feed_terminated u"
  using assms by (simp add: line_feed_terminated_def)

lemma line_feed_terminated_plain:
  assumes "cur = [] \<or> last cur \<noteq> CHR 0x0A"
  shows "line_feed_terminated cur = cur @ [CHR 0x0A]"
  using assms by (auto simp: line_feed_terminated_def)

lemma join_bytes_splitlines_from:
  assumes "cur = [] \<or> last cur \<noteq> CHR 0x0A"
  shows "join [CHR 0x0A] (bytes_splitlines_from cur s) @ [CHR 0x0A]
           = line_feed_terminated (cur @ universal_newlines s)"
  using assms
proof (induction cur s rule: bytes_splitlines_from.induct)
  case (1 cur)
  then show ?case by (auto simp: line_feed_terminated_def)
next
  case (2 cur c cs)
  show ?case
  proof (cases "c = CHR 0x0A \<or> c = CHR 0x0D")
    case False
    then have "join [CHR 0x0A] (bytes_splitlines_from (cur @ [c]) cs) @ [CHR 0x0A]
        = line_feed_terminated ((cur @ [c]) @ universal_newlines cs)"
      using "2.IH"(3) by simp
    with False show ?thesis by simp
  next
    case br: True
    show ?thesis
    proof (cases cs)
      case Nil
      with br show ?thesis by (auto simp: line_feed_terminated_def)
    next
      case (Cons d ds)
      define tl' where "tl' = (if c = CHR 0x0D \<and> d = CHR 0x0A then ds else cs)"
      define R where "R = bytes_splitlines_from [] tl'"
      define U where "U = universal_newlines tl'"
      have ih: "join [CHR 0x0A] R @ [CHR 0x0A] = line_feed_terminated U"
      proof (cases "c = CHR 0x0D \<and> d = CHR 0x0A")
        case True
        then show ?thesis
          using "2.IH"(1) [OF br Cons True] by (auto simp: R_def U_def tl'_def)
      next
        case False
        then show ?thesis
          using "2.IH"(2) [OF br Cons False] by (auto simp: R_def U_def tl'_def)
      qed
      have l: "bytes_splitlines_from cur (c # cs) = cur # R"
        using br Cons by (auto simp: R_def tl'_def)
      have u: "universal_newlines (c # cs) = CHR 0x0A # U"
        using br Cons by (auto simp: U_def tl'_def)
      show ?thesis
      proof (cases "tl' = []")
        case True
        then have "R = []" "U = []" by (simp_all add: R_def U_def)
        then show ?thesis
          unfolding l u by (simp add: line_feed_terminated_def)
      next
        case False
        then have ne: "R \<noteq> []" "U \<noteq> []"
          unfolding R_def U_def
          by (simp_all only: bytes_splitlines_from_Nil_iff universal_newlines_Nil_iff
              simp_thms)
        have "line_feed_terminated (cur @ CHR 0x0A # U)
            = (cur @ [CHR 0x0A]) @ line_feed_terminated U"
          using line_feed_terminated_append [OF ne(2), of "cur @ [CHR 0x0A]"] by simp
        with ih ne show ?thesis
          unfolding l u by (simp add: join_Cons)
      qed
    qed
  qed
qed

lemma content_set_content:
  "content (set_content msg body) = line_feed_terminated (universal_newlines body)"
  using join_bytes_splitlines_from [of "[]" body]
  by (simp add: set_content_def bytes_splitlines_def)




section \<open>Lemmas on the address pipeline of the scenario\<close>

lemma scenario_lower:
  "str_lower ''Alice <alice@example.com>; notanemail bob@test.org''
     = ''alice <alice@example.com>; notanemail bob@test.org''"
  by code_simp

lemma scenario_normalise:
  "join '' '' (split_whitespace ''alice <alice@example.com>; notanemail bob@test.org'')
     = ''alice <alice@example.com>; notanemail bob@test.org''"
  by code_simp

lemma scenario_tokens:
  "split_at (\<lambda>c. is_space c \<or> c = CHR '';'' \<or> c = CHR 0x0A) []
     ''alice <alice@example.com>; notanemail bob@test.org''
   = [''alice'', ''<alice@example.com>'', [], ''notanemail'', ''bob@test.org'']"
  by code_simp

section \<open>Lemmas on the image classification\<close>

lemma endswith_iff: "endswith s e \<longleftrightarrow> (\<exists>pre. s = pre @ e)"
proof
  assume "endswith s e"
  then have "s = take (length s - length e) s @ e"
    by (metis append_take_drop_id endswith_def)
  then show "\<exists>pre. s = pre @ e" ..
next
  assume "\<exists>pre. s = pre @ e"
  then show "endswith s e" by (auto simp: endswith_def)
qed

lemma lower_char_eq_dot:
  assumes "lower_char c = CHR ''.''"
  shows "c = CHR ''.''"
proof (cases "65 \<le> (of_char c :: nat) \<and> (of_char c :: nat) \<le> 90")
  case True
  with assms have "char_of (of_char c + 32 :: nat) = CHR ''.''"
    by (simp add: lower_char_def Let_def)
  then have "(of_char (char_of (of_char c + 32 :: nat)) :: nat) = of_char CHR ''.''"
    by (rule arg_cong)
  then have m: "(of_char c + 32 :: nat) mod 256 = 46"
    by (simp only: of_char_of) simp
  from True have "(of_char c + 32 :: nat) < 256" by simp
  then have "(of_char c + 32 :: nat) mod 256 = of_char c + 32" by (rule mod_less)
  with m True show ?thesis by simp
next
  case False
  with assms show ?thesis by (simp add: lower_char_def Let_def)
qed

lemma lower_char_slash: "lower_char CHR ''/'' = CHR ''/''"
  by (simp add: lower_char_def)

lemma str_lower_no_dot:
  assumes "CHR ''.'' \<notin> set s"
  shows "CHR ''.'' \<notin> set (str_lower s)"
proof
  assume "CHR ''.'' \<in> set (str_lower s)"
  then obtain c where c: "c \<in> set s" and "lower_char c = CHR ''.''"
    by (auto simp: str_lower_def)
  then have "c = CHR ''.''" by (simp add: lower_char_eq_dot)
  with c assms show False by simp
qed

lemma image_extensions_shape:
  assumes "e \<in> set image_extensions"
  shows "\<exists>e'. e = CHR ''.'' # e' \<and> CHR ''/'' \<notin> set e'"
  using assms by (auto simp: image_extensions_def)

lemma os_path_join_shape:
  "\<exists>pre. os_path_join folder name = pre @ name \<and> (pre = [] \<or> last pre = CHR ''/'')"
proof -
  consider "name \<noteq> [] \<and> hd name = CHR ''/''"
    | "\<not> (name \<noteq> [] \<and> hd name = CHR ''/'')" "folder = [] \<or> last folder = CHR ''/''"
    | "\<not> (name \<noteq> [] \<and> hd name = CHR ''/'')" "\<not> (folder = [] \<or> last folder = CHR ''/'')"
    by blast
  then show ?thesis
  proof cases
    case 1
    then have "os_path_join folder name = [] @ name" by (simp add: os_path_join_def)
    then show ?thesis by blast
  next
    case 2
    then have "os_path_join folder name = folder @ name" by (auto simp: os_path_join_def)
    with 2 show ?thesis by blast
  next
    case 3
    then have "os_path_join folder name = (folder @ ''/'') @ name"
      by (simp add: os_path_join_def)
    moreover have "last (folder @ ''/'') = CHR ''/''" by simp
    ultimately show ?thesis by blast
  qed
qed

lemma dotless_name_not_image:
  assumes nodot: "CHR ''.'' \<notin> set name"
  shows "\<not> list_ex (endswith (str_lower (os_path_join folder name))) image_extensions"
proof
  assume "list_ex (endswith (str_lower (os_path_join folder name))) image_extensions"
  then obtain e where e: "e \<in> set image_extensions"
    and ends: "endswith (str_lower (os_path_join folder name)) e"
    by (auto simp: list_ex_iff)
  from image_extensions_shape [OF e] obtain e' where
    e': "e = CHR ''.'' # e'" and noslash: "CHR ''/'' \<notin> set e'" by blast
  from os_path_join_shape obtain pre where
    p: "os_path_join folder name = pre @ name" and pre: "pre = [] \<or> last pre = CHR ''/''"
    by blast
  from ends obtain q where q: "str_lower (pre @ name) = q @ CHR ''.'' # e'"
    unfolding endswith_iff p e' by blast
  have ln: "CHR ''.'' \<notin> set (str_lower name)" using nodot by (rule str_lower_no_dot)
  from q have "str_lower pre @ str_lower name = q @ (CHR ''.'' # e')"
    by (simp add: str_lower_def)
  then obtain us where
    "(str_lower pre = q @ us \<and> us @ str_lower name = CHR ''.'' # e')
     \<or> (str_lower pre @ us = q \<and> str_lower name = us @ CHR ''.'' # e')"
    unfolding append_eq_append_conv2 by blast
  then show False
  proof
    assume a: "str_lower pre = q @ us \<and> us @ str_lower name = CHR ''.'' # e'"
    with ln obtain us' where us: "us = CHR ''.'' # us'" and e'': "e' = us' @ str_lower name"
      by (cases us) auto
    from a us have lp: "str_lower pre = q @ CHR ''.'' # us'" by simp
    then have "pre \<noteq> []" by (auto simp: str_lower_def)
    with pre have "last pre = CHR ''/''" by blast
    with \<open>pre \<noteq> []\<close> have "last (str_lower pre) = CHR ''/''"
      by (simp add: str_lower_def last_map lower_char_slash)
    with lp have l: "last (CHR ''.'' # us') = CHR ''/''" by simp
    show False
    proof (cases us')
      case Nil
      with l show False by simp
    next
      case (Cons u us'')
      with l have "CHR ''/'' \<in> set us'" by (metis last.simps last_in_set list.discI)
      with e'' noslash show False by simp
    qed
  next
    assume "str_lower pre @ us = q \<and> str_lower name = us @ CHR ''.'' # e'"
    with ln show False by (metis in_set_conv_decomp)
  qed
qed

section \<open>Lemmas on the image-to-bytes helper\<close>









lemma seg_photo: "last_dot_segment ''photo.png'' = ''png''"
  by code_simp

lemma seg_thumb: "last_dot_segment ''thumb.png'' = ''png''"
  by code_simp

lemma seg_strip: "last_dot_segment ''strip.png'' = ''png''"
  by code_simp

section \<open>Lemmas on the Attachment Composer\<close>

lemma file_attachment_declared:
  assumes "file_attachment cv fs folder mx f = Inr a"
  shows "maintype a = ''image'' \<and> subtype a = last_dot_segment f"
  using assms
  by (auto simp: file_attachment_def Let_def split: sum.splits if_splits)

lemma add_attachments_Inr:
  assumes "add_attachments cv fs folder mx files msg = Inr msg'"
  shows "content msg' = content msg \<and> headers msg' = headers msg
       \<and> (\<exists>as. attachments msg' = attachments msg @ as
              \<and> map (file_attachment cv fs folder mx) files = map Inr as)"
  using assms
proof (induction files arbitrary: msg)
  case Nil
  then show ?case by simp
next
  case (Cons f files)
  from Cons.prems obtain a where
    a: "file_attachment cv fs folder mx f = Inr a" and
    rest: "add_attachments cv fs folder mx files
             (add_attachment msg (data a) (maintype a) (subtype a)) = Inr msg'"
    by (auto split: sum.splits)
  from Cons.IH [OF rest] obtain as where
    c: "content msg' = content msg" "headers msg' = headers msg" and
    as: "attachments msg' = (attachments msg @ [a]) @ as"
        "map (file_attachment cv fs folder mx) files = map Inr as"
    by (auto simp: add_attachment_def)
  from as a have "attachments msg' = attachments msg @ (a # as)
      \<and> map (file_attachment cv fs folder mx) (f # files) = map Inr (a # as)"
    by simp
  with c show ?case by blast
qed

lemma set_header_Inr:
  assumes "set_header hf msg name v = Inr msg'"
  shows "content msg' = content msg \<and> attachments msg' = attachments msg"
  using assms by (auto simp: set_header_def split: if_splits option.splits)


lemma create_message_Inr:
  assumes "create_message hf cv fs message email_from email_to subject folder suffix mx = Inr msg"
  shows "\<exists>files. find_files_with_suffix fs folder suffix = Inr files
           \<and> content msg = line_feed_terminated (universal_newlines message)
           \<and> map (file_attachment cv fs folder mx) files = map Inr (attachments msg)"
proof -
  from assms obtain msg1 msg2 msg3 files where
    h1: "set_header hf (set_content EmailMessage message) ''To'' email_to = Inr msg1" and
    h2: "set_header hf msg1 ''From'' email_from = Inr msg2" and
    h3: "set_header hf msg2 ''Subject'' subject = Inr msg3" and
    f: "find_files_with_suffix fs folder suffix = Inr files" and
    a: "add_attachments cv fs folder mx files msg3 = Inr msg"
    by (auto simp: create_message_def find_files_with_suffix_str2list Let_def
        split: if_splits sum.splits)
  from set_header_Inr [OF h1] set_header_Inr [OF h2] set_header_Inr [OF h3]
  have m3: "content msg3 = line_feed_terminated (universal_newlines message)"
    "attachments msg3 = []"
    by (simp_all add: content_set_content) (simp add: set_content_def EmailMessage_def)
  from add_attachments_Inr [OF a] m3 f show ?thesis by auto
qed




section \<open>Lemmas on the confirmation prompt\<close>

declare yn_loop.simps [simp del]

lemma yn_loop_done:
  assumes "inp = ''Y'' \<or> inp = ''n''"
  shows "yn_loop inp w = (Inr inp, w)"
  using assms by (subst yn_loop.simps) auto

lemma yn_loop_eof:
  assumes "\<forall>l \<in> set bad. l \<noteq> ''Y'' \<and> l \<noteq> ''n''"
      and "inp \<noteq> ''Y''" and "inp \<noteq> ''n''"
  shows "yn_loop inp \<lparr>stdin = bad, stdout = out\<rparr>
           = (Inl EOFError,
              \<lparr>stdin = [],
               stdout = out @ ''You did not press Y or n, try again''
                  # concat (map (\<lambda>l. [''You pressed '' @ l,
                                        ''You did not press Y or n, try again'']) bad)\<rparr>)"
  using assms
proof (induction bad arbitrary: inp out)
  case Nil
  then show ?case
    by (subst yn_loop.simps) (simp add: print_line_def)
next
  case (Cons l bad)
  from Cons.prems have l: "l \<noteq> ''Y''" "l \<noteq> ''n''"
    and bad: "\<forall>l \<in> set bad. l \<noteq> ''Y'' \<and> l \<noteq> ''n''" by auto
  have "yn_loop inp \<lparr>stdin = l # bad, stdout = out\<rparr>
      = yn_loop l \<lparr>stdin = bad,
                   stdout = out @ [''You did not press Y or n, try again'', ''You pressed '' @ l]\<rparr>"
    using Cons.prems(2,3) by (subst yn_loop.simps) (simp add: print_line_def)
  also note Cons.IH [OF bad l]
  finally show ?case by simp
qed

lemma yn_loop_answer:
  assumes "\<forall>l \<in> set bad. l \<noteq> ''Y'' \<and> l \<noteq> ''n''"
      and "inp \<noteq> ''Y''" and "inp \<noteq> ''n''"
      and "fin = ''Y'' \<or> fin = ''n''"
  shows "yn_loop inp \<lparr>stdin = bad @ fin # rest, stdout = out\<rparr>
           = (Inr fin,
              \<lparr>stdin = rest,
               stdout = out @ ''You did not press Y or n, try again''
                  # concat (map (\<lambda>l. [''You pressed '' @ l,
                                        ''You did not press Y or n, try again'']) bad)
                  @ [''You pressed '' @ fin]\<rparr>)"
  using assms
proof (induction bad arbitrary: inp out)
  case Nil
  have "yn_loop inp \<lparr>stdin = fin # rest, stdout = out\<rparr>
      = yn_loop fin \<lparr>stdin = rest,
                     stdout = out @ [''You did not press Y or n, try again'', ''You pressed '' @ fin]\<rparr>"
    using Nil.prems(2,3) by (subst yn_loop.simps) (simp add: print_line_def)
  also note yn_loop_done [OF Nil.prems(4)]
  finally show ?case by simp
next
  case (Cons l bad)
  from Cons.prems have l: "l \<noteq> ''Y''" "l \<noteq> ''n''"
    and bad: "\<forall>l \<in> set bad. l \<noteq> ''Y'' \<and> l \<noteq> ''n''" by auto
  have "yn_loop inp \<lparr>stdin = (l # bad) @ fin # rest, stdout = out\<rparr>
      = yn_loop l \<lparr>stdin = bad @ fin # rest,
                   stdout = out @ [''You did not press Y or n, try again'', ''You pressed '' @ l]\<rparr>"
    using Cons.prems(2,3) by (subst yn_loop.simps) (simp add: print_line_def)
  also note Cons.IH [OF bad l Cons.prems(4)]
  finally show ?case by simp
qed

lemma press_eof:
  assumes "\<forall>l \<in> set bad. l \<noteq> ''Y'' \<and> l \<noteq> ''n''"
  shows "press_Yn_to_continue \<lparr>stdin = bad, stdout = out\<rparr>
           = (Inl EOFError,
              \<lparr>stdin = [],
               stdout = out @ ''Press Y to continue, or n to break''
                  # concat (map (\<lambda>l. [''You pressed '' @ l,
                                        ''You did not press Y or n, try again'']) bad)\<rparr>)"
proof (cases bad)
  case Nil
  then show ?thesis by (simp add: press_Yn_to_continue_def print_line_def)
next
  case (Cons l bad')
  with assms have l: "l \<noteq> ''Y''" "l \<noteq> ''n''"
    and bad: "\<forall>l \<in> set bad'. l \<noteq> ''Y'' \<and> l \<noteq> ''n''" by auto
  show ?thesis
    unfolding Cons
    by (simp add: press_Yn_to_continue_def print_line_def yn_loop_eof [OF bad l])
qed

lemma press_answer:
  assumes "\<forall>l \<in> set bad. l \<noteq> ''Y'' \<and> l \<noteq> ''n''"
      and "fin = ''Y'' \<or> fin = ''n''"
  shows "press_Yn_to_continue \<lparr>stdin = bad @ fin # rest, stdout = out\<rparr>
           = (if fin = ''n'' then Inl (SystemExit (ExitStr ''You pressed n, breaking''))
              else Inr (),
              \<lparr>stdin = rest,
               stdout = out @ ''Press Y to continue, or n to break''
                  # concat (map (\<lambda>l. [''You pressed '' @ l,
                                        ''You did not press Y or n, try again'']) bad)
                  @ [''You pressed '' @ fin]\<rparr>)"
proof (cases bad)
  case Nil
  then show ?thesis
    by (simp add: press_Yn_to_continue_def print_line_def yn_loop_done [OF assms(2)])
next
  case (Cons l bad')
  with assms have l: "l \<noteq> ''Y''" "l \<noteq> ''n''"
    and bad: "\<forall>l \<in> set bad'. l \<noteq> ''Y'' \<and> l \<noteq> ''n''" by auto
  show ?thesis
    unfolding Cons
    by (simp add: press_Yn_to_continue_def print_line_def
        yn_loop_answer [OF bad l assms(2)])
qed

section \<open>File Finder\<close>

text \<open>
  C2.  For an existing folder (a directory with the listing \<open>names\<close>) and every suffix
  argument, the File Finder returns exactly the names of the listing, in its order, whose
  part after the last dot is one of the suffixes, compared as strings (so case matters).
  The result holds names of the folder's own listing only: nothing below a subfolder.
  A name without a dot is in the result exactly when it is listed and the whole name is
  one of the suffixes.
\<close>

theorem find_files_with_suffix_exact:
  assumes "fs folder = Some (Dir names)"
  shows "find_files_with_suffix fs folder suffix =
           Inr (filter (\<lambda>f. after_last_dot f \<in> set (str2list suffix)) names)
       \<and> (\<forall>files f. find_files_with_suffix fs folder suffix = Inr files
             \<and> CHR ''.'' \<notin> set f
             \<longrightarrow> (f \<in> set files \<longleftrightarrow> f \<in> set names \<and> f \<in> set (str2list suffix)))"
proof -
  have eq: "find_files_with_suffix fs folder suffix =
      Inr (filter (\<lambda>f. after_last_dot f \<in> set (str2list suffix)) names)"
    using assms by (simp add: find_files_with_suffix_Dir last_dot_segment_eq)
  show ?thesis using eq by (auto simp: after_last_dot_no_dot)
qed

theorem find_files_with_suffix_exact_witness:
  "find_files_with_suffix
     (\<lambda>p. if p = ''data'' then Some (Dir [''a.txt'', ''b.TXT'', ''txt'', ''sub'', ''c.tar.txt'', ''d.png''])
          else None)
     ''data'' (Str ''txt'')
   = Inr [''a.txt'', ''txt'', ''c.tar.txt'']"
  using find_files_with_suffix_exact
    [of "\<lambda>p. if p = ''data'' then Some (Dir [''a.txt'', ''b.TXT'', ''txt'', ''sub'', ''c.tar.txt'', ''d.png''])
          else None" "''data''" "[''a.txt'', ''b.TXT'', ''txt'', ''sub'', ''c.tar.txt'', ''d.png'']" "Str ''txt''"]
  by (simp add: after_last_dot_def)

section \<open>A folder that does not exist\<close>

text \<open>
  C5.  When the folder path does not exist, the File Finder, the Attachment Composer and
  the Address Extractor each fail at their first check with the assertion error
  \<^verbatim>\<open>Folder ... does not exist\<close> (the specification's \<^verbatim>\<open>NotFoundError\<close>): the result is
  the error alone, no list and no message.
\<close>

theorem missing_folder_fails:
  assumes "fs folder = None"
  shows "find_files_with_suffix fs folder suffix
           = Inl (AssertionError (''Folder '' @ folder @ '' does not exist''))
       \<and> create_message hf cv fs message email_from email_to subject folder suffix max_image_size
           = Inl (AssertionError (''Folder '' @ folder @ '' does not exist''))
       \<and> process_email_list fs folder suffix
           = Inl (AssertionError (''Folder '' @ folder @ '' does not exist''))"
  using assms
  by (simp add: find_files_with_suffix_def create_message_def process_email_list_def
      os_path_exists_def)

theorem missing_folder_fails_witness:
  "find_files_with_suffix (\<lambda>p. None) ''nowhere'' (Str ''txt'')
     = Inl (AssertionError ''Folder nowhere does not exist'')
   \<and> create_message plain_headers toy_cv2 (\<lambda>p. None) ''hi'' ''a@x.org'' ''b@y.org'' ''s'' ''nowhere'' (Str ''txt'') 1024
     = Inl (AssertionError ''Folder nowhere does not exist'')
   \<and> process_email_list (\<lambda>p. None) ''nowhere'' (Str ''txt'')
     = Inl (AssertionError ''Folder nowhere does not exist'')"
  using missing_folder_fails [where fs = "\<lambda>p. None" and folder = "''nowhere''"
      and suffix = "Str ''txt''" and hf = plain_headers and cv = toy_cv2 and message = "''hi''"
      and email_from = "''a@x.org''" and email_to = "''b@y.org''" and subject = "''s''"
      and max_image_size = 1024]
  by simp

section \<open>Attachment Composer without matching files\<close>




section \<open>The image-to-bytes helper on a path that is no image\<close>

text \<open>
  C10.  For an existing path whose lower-cased name ends with none of the extensions
  \<^verbatim>\<open>.png .jpg .jpeg .tiff .bmp .gif\<close>, the image-to-bytes helper fails with the assertion
  error \<^verbatim>\<open>... is not an image\<close>, whatever the path holds and whatever the image library
  would do with it; it returns no bytes.
\<close>

theorem image2bytes_rejects_non_image:
  assumes "os_path_exists fs path"
      and "\<not> list_ex (endswith (str_lower path)) image_extensions"
  shows "image2bytes cv fs path max_size = Inl (AssertionError (path @ '' is not an image''))
       \<and> (\<forall>bs. image2bytes cv fs path max_size \<noteq> Inr bs)"
  using assms by (simp add: image2bytes_def is_file_image_def)

theorem image2bytes_rejects_non_image_witness:
  "image2bytes toy_cv2 (\<lambda>p. if p = ''out/notes.txt'' then Some (File ''abc'') else None)
     ''out/notes.txt'' 1024
   = Inl (AssertionError ''out/notes.txt is not an image'')"
proof -
  have ex: "os_path_exists (\<lambda>p. if p = ''out/notes.txt'' then Some (File ''abc'') else None)
      ''out/notes.txt''"
    by (simp add: os_path_exists_def)
  have no: "\<not> list_ex (endswith (str_lower ''out/notes.txt'')) image_extensions"
    by code_simp
  show ?thesis
    using image2bytes_rejects_non_image [OF ex no, of toy_cv2 1024] by simp
qed

section \<open>Address Extractor on the scenario of the specification\<close>

text \<open>
  C3.  For a folder that lists one file with the suffix \<^verbatim>\<open>txt\<close> whose lines are
  \<^verbatim>\<open>Alice <alice@example.com>;\<close> and \<^verbatim>\<open>notanemail bob@test.org\<close>, the Address Extractor
  returns exactly \<^verbatim>\<open>alice@example.com\<close> and \<^verbatim>\<open>bob@test.org\<close>, in this order: lower case,
  without the angle brackets, and without the tokens that have no \<open>@\<close>.
\<close>

theorem process_email_list_scenario:
  assumes "fs folder = Some (Dir [fname])"
      and "after_last_dot fname = ''txt''"
      and "fs (os_path_join folder fname) = Some (File bs)"
      and "splitlines (universal_newlines bs)
             = [''Alice <alice@example.com>;'', ''notanemail bob@test.org'']"
  shows "process_email_list fs folder (Str ''txt'')
           = Inr [''alice@example.com'', ''bob@test.org'']"
proof -
  have ex: "os_path_exists fs folder"
    using assms(1) by (simp add: os_path_exists_def)
  have files: "find_files_with_suffix fs folder (Str ''txt'') = Inr [fname]"
    using find_files_with_suffix_Dir [where fs = fs and folder = folder and names = "[fname]"
        and suffix = "Str ''txt''"] assms(1,2)
    by (simp add: last_dot_segment_eq)
  have lines: "read_all_lines fs folder [fname] []
      = Inr [''Alice <alice@example.com>;'', ''notanemail bob@test.org'']"
    using assms(3,4) by (simp add: read_text_def read_bytes_def)
  have "process_email_list fs folder (Str ''txt'')
      = Inr (map (filter (\<lambda>c. c \<noteq> CHR ''<'' \<and> c \<noteq> CHR ''>''))
          (filter (\<lambda>e. CHR ''@'' \<in> set e)
             [''alice'', ''<alice@example.com>'', [], ''notanemail'', ''bob@test.org'']))"
    by (simp only: process_email_list_def ex files lines if_False not_True_eq_False sum.case
        Let_def list.map str2list.simps join.simps append.simps scenario_lower
        scenario_normalise scenario_tokens)
  then show ?thesis by simp
qed

theorem process_email_list_scenario_witness:
  "process_email_list
     (\<lambda>p. if p = ''mail'' then Some (Dir [''list.txt''])
          else if p = ''mail/list.txt''
          then Some (File (''Alice <alice@example.com>;'' @ [CHR 0x0D, CHR 0x0A]
                           @ ''notanemail bob@test.org'' @ [CHR 0x0A]))
          else None)
     ''mail'' (Str ''txt'')
   = Inr [''alice@example.com'', ''bob@test.org'']"
proof -
  let ?fs = "\<lambda>p. if p = ''mail'' then Some (Dir [''list.txt''])
          else if p = ''mail/list.txt''
          then Some (File (''Alice <alice@example.com>;'' @ [CHR 0x0D, CHR 0x0A]
                           @ ''notanemail bob@test.org'' @ [CHR 0x0A]))
          else None"
  have a: "?fs ''mail'' = Some (Dir [''list.txt''])" by simp
  have b: "after_last_dot ''list.txt'' = ''txt''" by code_simp
  have j: "os_path_join ''mail'' ''list.txt'' = ''mail/list.txt''" by code_simp
  have c: "?fs (os_path_join ''mail'' ''list.txt'')
      = Some (File (''Alice <alice@example.com>;'' @ [CHR 0x0D, CHR 0x0A]
                           @ ''notanemail bob@test.org'' @ [CHR 0x0A]))"
    unfolding j by simp
  have d: "splitlines (universal_newlines (''Alice <alice@example.com>;'' @ [CHR 0x0D, CHR 0x0A]
                           @ ''notanemail bob@test.org'' @ [CHR 0x0A]))
      = [''Alice <alice@example.com>;'', ''notanemail bob@test.org'']"
    by code_simp
  show ?thesis
    using process_email_list_scenario [where fs = ?fs and folder = "''mail''"
        and fname = "''list.txt''", OF a b c d] .
qed

section \<open>Declared types of the attachments\<close>

text \<open>
  C6.  Whenever the Attachment Composer returns a message, its attachments are those of
  the files the File Finder returned, in the same order, and every attachment, image or
  not, is declared with the main type \<^verbatim>\<open>image\<close> and with the part of the file name after
  its last dot as subtype.
\<close>

theorem attachments_declared_types:
  assumes "create_message hf cv fs message email_from email_to subject folder suffix mx = Inr msg"
  shows "\<exists>files. find_files_with_suffix fs folder suffix = Inr files
           \<and> map (\<lambda>a. (maintype a, subtype a)) (attachments msg)
               = map (\<lambda>f. (''image'', after_last_dot f)) files"
proof -
  from create_message_Inr [OF assms] obtain files where
    f: "find_files_with_suffix fs folder suffix = Inr files" and
    m: "map (file_attachment cv fs folder mx) files = map Inr (attachments msg)"
    by blast
  have "map (\<lambda>a. (maintype a, subtype a)) as = map (\<lambda>f. (''image'', after_last_dot f)) fl"
    if "map (file_attachment cv fs folder mx) fl = map Inr as" for fl as
    using that
  proof (induction fl arbitrary: as)
    case Nil
    then show ?case by simp
  next
    case (Cons x xs)
    then obtain b bs where as: "as = b # bs" by (cases as) auto
    with Cons.prems have "file_attachment cv fs folder mx x = Inr b"
      and "map (file_attachment cv fs folder mx) xs = map Inr bs" by auto
    with Cons.IH [of bs] file_attachment_declared [of cv fs folder mx x b] as
    show ?case by (simp add: last_dot_segment_eq)
  qed
  from this [OF m] f show ?thesis by blast
qed

theorem attachments_declared_types_witness:
  "\<exists>msg. create_message plain_headers toy_cv2 example_fs ''Hello'' ''me@x.org'' ''you@y.org'' ''Pictures''
            ''pics'' (Lst [''png'', ''txt'', ''jpg'']) 1024 = Inr msg
         \<and> map (\<lambda>a. (maintype a, subtype a)) (attachments msg)
             = [(''image'', ''png''), (''image'', ''txt''), (''image'', ''jpg'')]"
proof -
  define msg where "msg = \<lparr>content = ''Hello'' @ [CHR 0x0A],
      headers = [(''To'', ''you@y.org''), (''From'', ''me@x.org''), (''Subject'', ''Pictures'')],
      attachments = [\<lparr>data = ''.png###'', maintype = ''image'', subtype = ''png''\<rparr>,
                     \<lparr>data = ''hello'', maintype = ''image'', subtype = ''txt''\<rparr>,
                     \<lparr>data = ''raw'', maintype = ''image'', subtype = ''jpg''\<rparr>]\<rparr>"
  have ev: "create_message plain_headers toy_cv2 example_fs ''Hello'' ''me@x.org'' ''you@y.org'' ''Pictures''
      ''pics'' (Lst [''png'', ''txt'', ''jpg'']) 1024 = Inr msg"
    unfolding msg_def by code_simp
  have fl: "find_files_with_suffix example_fs ''pics'' (Lst [''png'', ''txt'', ''jpg''])
      = Inr [''a.png'', ''notes.txt'', ''jpg'']"
    by code_simp
  have ext: "map (\<lambda>f. (''image'', after_last_dot f)) [''a.png'', ''notes.txt'', ''jpg'']
      = [(''image'', ''png''), (''image'', ''txt''), (''image'', ''jpg'')]"
    by (simp add: after_last_dot_def)
  have "\<exists>files. find_files_with_suffix example_fs ''pics'' (Lst [''png'', ''txt'', ''jpg''])
            = Inr files
          \<and> map (\<lambda>a. (maintype a, subtype a)) (attachments msg)
              = map (\<lambda>f. (''image'', after_last_dot f)) files"
    by (rule attachments_declared_types [OF ev])
  then obtain files where
    f: "find_files_with_suffix example_fs ''pics'' (Lst [''png'', ''txt'', ''jpg'']) = Inr files"
    and m: "map (\<lambda>a. (maintype a, subtype a)) (attachments msg)
              = map (\<lambda>f. (''image'', after_last_dot f)) files"
    by (elim exE conjE)
  from f have "files = [''a.png'', ''notes.txt'', ''jpg'']"
    unfolding fl by (simp only: sum.inject)
  with m have "map (\<lambda>a. (maintype a, subtype a)) (attachments msg)
      = [(''image'', ''png''), (''image'', ''txt''), (''image'', ''jpg'')]"
    by (simp only: ext)
  with ev show ?thesis by (intro exI conjI)
qed

section \<open>A file whose whole name is an image suffix\<close>

text \<open>
  C9.  Let \<open>name\<close> be one of \<^verbatim>\<open>png jpg jpeg tiff bmp gif\<close> (an image suffix, so without a
  dot), listed in the folder, an existing file with the bytes \<open>bs\<close>, and let the suffix
  filter contain it.  Then the File Finder returns it, the image classification helper
  says that its path is no image, and the Attachment Composer attaches the bytes \<open>bs\<close>
  as they are, with the whole file name as subtype: this is the attachment the loop body
  makes for it, and the attachment at its position in every message the composer returns.
\<close>

theorem dotless_image_name_attached_raw:
  assumes "CHR ''.'' # name \<in> set image_extensions"
      and "name \<in> set (str2list suffix)"
      and "fs folder = Some (Dir names)"
      and "name \<in> set names"
      and "fs (os_path_join folder name) = Some (File bs)"
  shows "(\<exists>files. find_files_with_suffix fs folder suffix = Inr files \<and> name \<in> set files)
       \<and> is_file_image fs (os_path_join folder name) = Inr False
       \<and> file_attachment cv fs folder mx name
           = Inr \<lparr>data = bs, maintype = ''image'', subtype = name\<rparr>
       \<and> (\<forall>msg files i.
             create_message hf cv fs message email_from email_to subject folder suffix mx = Inr msg
             \<and> find_files_with_suffix fs folder suffix = Inr files
             \<and> i < length files \<and> files ! i = name
             \<longrightarrow> attachments msg ! i = \<lparr>data = bs, maintype = ''image'', subtype = name\<rparr>)"
proof -
  from assms(1) have nodot: "CHR ''.'' \<notin> set name"
    by (auto simp: image_extensions_def)
  then have seg: "last_dot_segment name = name"
    by (simp add: last_dot_segment_eq after_last_dot_no_dot)
  have found: "\<exists>files. find_files_with_suffix fs folder suffix = Inr files \<and> name \<in> set files"
    using assms(2,3,4) seg by (simp add: find_files_with_suffix_Dir)
  have ex: "os_path_exists fs (os_path_join folder name)"
    using assms(5) by (simp add: os_path_exists_def)
  have noimg: "is_file_image fs (os_path_join folder name) = Inr False"
    using ex dotless_name_not_image [OF nodot, of folder] by (simp add: is_file_image_def)
  have att: "file_attachment cv fs folder mx name
      = Inr \<lparr>data = bs, maintype = ''image'', subtype = name\<rparr>"
    using noimg assms(5) seg by (simp add: file_attachment_def read_bytes_def)
  have whole: "attachments msg ! i = \<lparr>data = bs, maintype = ''image'', subtype = name\<rparr>"
    if c: "create_message hf cv fs message email_from email_to subject folder suffix mx = Inr msg"
      and f: "find_files_with_suffix fs folder suffix = Inr files"
      and i: "i < length files" "files ! i = name"
    for msg files i
  proof -
    from create_message_Inr [OF c] f have
      m: "map (file_attachment cv fs folder mx) files = map Inr (attachments msg)"
      by auto
    then have "length files = length (attachments msg)"
      by (metis length_map)
    with i have "map (file_attachment cv fs folder mx) files ! i = Inr (attachments msg ! i)"
      using m by simp
    with i att show ?thesis by simp
  qed
  from found noimg att whole show ?thesis by blast
qed

theorem dotless_image_name_attached_raw_witness:
  "(\<exists>files. find_files_with_suffix example_fs ''pics'' (Lst [''png'', ''txt'', ''jpg'']) = Inr files
       \<and> ''jpg'' \<in> set files)
   \<and> is_file_image example_fs ''pics/jpg'' = Inr False
   \<and> file_attachment toy_cv2 example_fs ''pics'' 1024 ''jpg''
       = Inr \<lparr>data = ''raw'', maintype = ''image'', subtype = ''jpg''\<rparr>"
proof -
  have 1: "CHR ''.'' # ''jpg'' \<in> set image_extensions"
    by (simp add: image_extensions_def)
  have 2: "''jpg'' \<in> set (str2list (Lst [''png'', ''txt'', ''jpg'']))" by simp
  have 3: "example_fs ''pics'' = Some (Dir [''a.png'', ''notes.txt'', ''b.JPG'', ''jpg''])"
    by (simp add: example_fs_def)
  have 4: "''jpg'' \<in> set [''a.png'', ''notes.txt'', ''b.JPG'', ''jpg'']" by simp
  have j: "os_path_join ''pics'' ''jpg'' = ''pics/jpg''"
    by (simp add: os_path_join_def)
  have 5: "example_fs (os_path_join ''pics'' ''jpg'') = Some (File ''raw'')"
    by (simp add: j example_fs_def)
  from dotless_image_name_attached_raw [where name = "''jpg''" and fs = example_fs
      and folder = "''pics''" and suffix = "Lst [''png'', ''txt'', ''jpg'']"
      and names = "[''a.png'', ''notes.txt'', ''b.JPG'', ''jpg'']" and bs = "''raw''"
      and cv = toy_cv2 and mx = 1024, OF 1 2 3 4 5]
  show ?thesis unfolding j by blast
qed

section \<open>Confirmation prompt\<close>

text \<open>
  C8.  Let \<open>bad\<close> be input lines that are neither \<^verbatim>\<open>Y\<close> nor \<^verbatim>\<open>n\<close>.  After reading
  them the prompt has not returned: it has printed its request again after each of them
  and asks for another line (with no line left this is the end-of-file error, never a
  return).  When the next line is \<^verbatim>\<open>Y\<close> it returns to the caller, having read exactly
  the lines up to this one.  When the next line is \<^verbatim>\<open>n\<close> it ends the process by
  \<^verbatim>\<open>sys.exit\<close> with a message, which is exit status 1.  Conversely, whenever the prompt
  returns, the last line it read is \<^verbatim>\<open>Y\<close> and all lines before it were neither
  \<^verbatim>\<open>Y\<close> nor \<^verbatim>\<open>n\<close>.
\<close>

theorem press_Yn_to_continue_protocol:
  assumes "\<forall>l \<in> set bad. l \<noteq> ''Y'' \<and> l \<noteq> ''n''"
  shows "press_Yn_to_continue \<lparr>stdin = bad, stdout = out\<rparr>
           = (Inl EOFError,
              \<lparr>stdin = [],
               stdout = out @ ''Press Y to continue, or n to break''
                  # concat (map (\<lambda>l. [''You pressed '' @ l,
                                        ''You did not press Y or n, try again'']) bad)\<rparr>)
       \<and> press_Yn_to_continue \<lparr>stdin = bad @ ''Y'' # rest, stdout = out\<rparr>
           = (Inr (),
              \<lparr>stdin = rest,
               stdout = out @ ''Press Y to continue, or n to break''
                  # concat (map (\<lambda>l. [''You pressed '' @ l,
                                        ''You did not press Y or n, try again'']) bad)
                  @ [''You pressed Y'']\<rparr>)
       \<and> press_Yn_to_continue \<lparr>stdin = bad @ ''n'' # rest, stdout = out\<rparr>
           = (Inl (SystemExit (ExitStr ''You pressed n, breaking'')),
              \<lparr>stdin = rest,
               stdout = out @ ''Press Y to continue, or n to break''
                  # concat (map (\<lambda>l. [''You pressed '' @ l,
                                        ''You did not press Y or n, try again'']) bad)
                  @ [''You pressed n'']\<rparr>)
       \<and> exit_status (ExitStr ''You pressed n, breaking'') \<noteq> 0
       \<and> (\<forall>w w'. press_Yn_to_continue w = (Inr (), w')
             \<longrightarrow> (\<exists>pre. stdin w = pre @ ''Y'' # stdin w'
                      \<and> (\<forall>l \<in> set pre. l \<noteq> ''Y'' \<and> l \<noteq> ''n'')))"
proof -
  have conv: "\<exists>pre. stdin w = pre @ ''Y'' # stdin w'
                      \<and> (\<forall>l \<in> set pre. l \<noteq> ''Y'' \<and> l \<noteq> ''n'')"
    if ret: "press_Yn_to_continue w = (Inr (), w')" for w w'
  proof -
    define pre where "pre = takeWhile (\<lambda>l. l \<noteq> ''Y'' \<and> l \<noteq> ''n'') (stdin w)"
    define post where "post = dropWhile (\<lambda>l. l \<noteq> ''Y'' \<and> l \<noteq> ''n'') (stdin w)"
    have split: "stdin w = pre @ post" by (simp add: pre_def post_def)
    have pre: "\<forall>l \<in> set pre. l \<noteq> ''Y'' \<and> l \<noteq> ''n''"
      unfolding pre_def by (auto dest: set_takeWhileD)
    have w: "w = \<lparr>stdin = pre @ post, stdout = stdout w\<rparr>"
      using split by simp
    show ?thesis
    proof (cases post)
      case Nil
      with w have "w = \<lparr>stdin = pre, stdout = stdout w\<rparr>" by simp
      then have "fst (press_Yn_to_continue w) = Inl EOFError"
        using press_eof [OF pre, of "stdout w"] by simp
      with ret show ?thesis by simp
    next
      case (Cons fin rest)
      then have "\<not> (fin \<noteq> ''Y'' \<and> fin \<noteq> ''n'')"
        using hd_dropWhile [of "\<lambda>l. l \<noteq> ''Y'' \<and> l \<noteq> ''n''" "stdin w"]
        by (simp add: post_def)
      then have fin: "fin = ''Y'' \<or> fin = ''n''" by blast
      from w Cons have "w = \<lparr>stdin = pre @ fin # rest, stdout = stdout w\<rparr>" by simp
      then have r: "press_Yn_to_continue w
          = (if fin = ''n'' then Inl (SystemExit (ExitStr ''You pressed n, breaking''))
             else Inr (),
             \<lparr>stdin = rest,
              stdout = stdout w @ ''Press Y to continue, or n to break''
                 # concat (map (\<lambda>l. [''You pressed '' @ l,
                                       ''You did not press Y or n, try again'']) pre)
                 @ [''You pressed '' @ fin]\<rparr>)"
        using press_answer [OF pre fin, of rest "stdout w"] by simp
      with ret fin have "fin = ''Y''" and "stdin w' = rest"
        by (auto split: if_splits)
      with split Cons pre show ?thesis by auto
    qed
  qed
  have y: "''Y'' = ''Y'' \<or> ''Y'' = ''n''" and n: "''n'' = ''Y'' \<or> ''n'' = ''n''"
    by simp_all
  show ?thesis
    using press_eof [OF assms, of out] press_answer [OF assms y, of rest out]
      press_answer [OF assms n, of rest out] conv
    by simp
qed

theorem press_Yn_to_continue_protocol_witness:
  "press_Yn_to_continue \<lparr>stdin = [''y'', ''no''], stdout = []\<rparr>
     = (Inl EOFError,
        \<lparr>stdin = [],
         stdout = [''Press Y to continue, or n to break'',
                   ''You pressed y'', ''You did not press Y or n, try again'',
                   ''You pressed no'', ''You did not press Y or n, try again'']\<rparr>)
   \<and> press_Yn_to_continue \<lparr>stdin = [''y'', ''no'', ''Y'', ''later''], stdout = []\<rparr>
     = (Inr (),
        \<lparr>stdin = [''later''],
         stdout = [''Press Y to continue, or n to break'',
                   ''You pressed y'', ''You did not press Y or n, try again'',
                   ''You pressed no'', ''You did not press Y or n, try again'',
                   ''You pressed Y'']\<rparr>)
   \<and> press_Yn_to_continue \<lparr>stdin = [''y'', ''no'', ''n'', ''later''], stdout = []\<rparr>
     = (Inl (SystemExit (ExitStr ''You pressed n, breaking'')),
        \<lparr>stdin = [''later''],
         stdout = [''Press Y to continue, or n to break'',
                   ''You pressed y'', ''You did not press Y or n, try again'',
                   ''You pressed no'', ''You did not press Y or n, try again'',
                   ''You pressed n'']\<rparr>)"
proof -
  have bad: "\<forall>l \<in> set [''y'', ''no'']. l \<noteq> ''Y'' \<and> l \<noteq> ''n''" by simp
  from press_Yn_to_continue_protocol [OF bad, of "[]" "[''later'']"]
  show ?thesis by simp
qed

section \<open>The image-to-bytes helper and the size of the image\<close>




end
